theory Spec2Isabelle
  imports
    Complex_Main
    "HOL-Library.AList"
    "HOL-Library.Char_ord"
    "HOL-Library.List_Lexorder"
    "HOL-Library.Multiset"
begin

section \<open>The vector document store of solid-fortnight\<close>

text \<open>
  The development embeds two Python classes of the repository:
  \<^item> \<^verbatim>\<open>VectorDB\<close> of \<^verbatim>\<open>vectordb-client-python/vector_db_crud.py\<close> (single and batch
    add, get, count, update, delete);
  \<^item> \<^verbatim>\<open>AdvancedVectorDB\<close> of \<^verbatim>\<open>vectordb/advanced_example.py\<close> (chunked batch add,
    similarity search, hybrid search, statistics). Its methods that share a name with a
    method of \<^verbatim>\<open>VectorDB\<close> carry the prefix \<open>adv_\<close>.

  Both classes are thin layers over two collaborators that are not code of the
  repository: the sentence encoder (text to vector) and the ChromaDB collection
  (persistence). The encoder, the distance metric, \<^verbatim>\<open>uuid.uuid4\<close> and Python's
  \<^verbatim>\<open>str\<close> on metadata values are parameters of the functions below. The collection is
  modelled from the persistence contract of the specification.

  Python floats are idealised as \<^typ>\<open>real\<close>; Python strings as \<^typ>\<open>string\<close>.
\<close>

subsection \<open>Data\<close>

text \<open>A metadata value: Python's dynamically typed scalars, \<^verbatim>\<open>None\<close> included.\<close>

datatype pyval = PNone | PStr string | PInt int | PFloat real | PBool bool

text \<open>A metadata dictionary, keys in insertion order; lookup is \<^const>\<open>map_of\<close>.\<close>

type_synonym metadata = "(string \<times> pyval) list"

type_synonym vector = "real list"

datatype error = DimensionMismatch | InvalidArgument | NotFound | ValueError

record entry =
  emb :: vector
  doc :: string
  meta :: metadata

text \<open>
  The collection held by the persistence collaborator: the stored entries by id, in
  insertion order, and the dimension the collection is locked to (\<open>None\<close> until the first
  successful insert).
\<close>

record collection =
  docs :: "(string \<times> entry) list"
  dimension :: "nat option"

text \<open>The calls the store makes to its collaborators, in the order it makes them.\<close>

datatype call = Encode "string list" | CollAdd "string list"

text \<open>
  The state of a \<^verbatim>\<open>VectorDB\<close> or \<^verbatim>\<open>AdvancedVectorDB\<close> object: its collection, its name,
  the trace of collaborator calls made so far, and the number of ids drawn from
  \<^verbatim>\<open>uuid.uuid4\<close>.
\<close>

record vdb =
  collection :: collection
  collection_name :: string
  calls :: "call list"
  uuids_drawn :: nat

subsection \<open>The persistence collaborator\<close>

text \<open>
  The ChromaDB collection object (\<^verbatim>\<open>self.collection\<close>) is not part of the repository.
  Its operations are modelled from the persistence contract of the specification, each
  under the name \<open>coll_\<close> followed by the method's.
\<close>

text \<open>
  Modelled from the spec: upsert of the collaborator (the ChromaDB collection is not in
  the repository). Each row is stored under its id, in order; an id that is already
  stored is overwritten in place.
\<close>

definition upsert_all :: "(string \<times> entry) list \<Rightarrow> (string \<times> entry) list \<Rightarrow> (string \<times> entry) list" where
  "upsert_all rows al = fold (\<lambda>(i, e). AList.update i e) rows al"

text \<open>
  Modelled from the spec: the lazy dimension of the collaborator's collection. A locked
  dimension stays; an unlocked collection takes the length of the first embedding it is
  given.
\<close>

definition lock_dimension :: "nat option \<Rightarrow> vector list \<Rightarrow> nat option" where
  "lock_dimension d embeddings =
     (case d of
        Some n \<Rightarrow> Some n
      | None \<Rightarrow> (case embeddings of [] \<Rightarrow> None | e # _ \<Rightarrow> Some (length e)))"

text \<open>
  Modelled from the spec: the collaborator's dimension check. Every embedding of a call
  must have the dimension of the collection.
\<close>

definition dimension_ok :: "nat option \<Rightarrow> vector list \<Rightarrow> bool" where
  "dimension_ok d embeddings =
     (case d of None \<Rightarrow> True | Some n \<Rightarrow> list_all (\<lambda>e. length e = n) embeddings)"

text \<open>
  Modelled from the spec: \<^verbatim>\<open>collection.add\<close> of the ChromaDB collection, the insert of
  the persistence contract. Lists of different lengths are an \<open>InvalidArgument\<close>; an
  embedding whose length differs from the locked dimension is a \<open>DimensionMismatch\<close>,
  checked for the whole call before anything is written; the first successful insert
  locks the dimension; an id that is already stored is overwritten (upsert).
\<close>

definition coll_add ::
  "collection \<Rightarrow> vector list \<Rightarrow> string list \<Rightarrow> metadata list \<Rightarrow> string list \<Rightarrow> error + collection" where
  "coll_add c embeddings documents metadatas ids =
     (if length embeddings \<noteq> length ids \<or> length documents \<noteq> length ids
         \<or> length metadatas \<noteq> length ids
      then Inl InvalidArgument
      else
        let d = lock_dimension (dimension c) embeddings in
        if \<not> dimension_ok d embeddings then Inl DimensionMismatch
        else Inr \<lparr>docs = upsert_all
                       (zip ids (map (\<lambda>(e, t, m). \<lparr>emb = e, doc = t, meta = m\<rparr>)
                                  (zip embeddings (zip documents metadatas))))
                       (docs c),
                 dimension = d\<rparr>)"

text \<open>
  Modelled from the spec: \<^verbatim>\<open>collection.get\<close>. With a list of ids it returns the
  stored rows (id, text, metadata) of those ids that exist, and never fails for a missing
  id; without one it returns every row.
\<close>

definition coll_get :: "collection \<Rightarrow> string list option \<Rightarrow> (string \<times> string \<times> metadata) list" where
  "coll_get c ids =
     (case ids of
        None \<Rightarrow> map (\<lambda>(i, e). (i, doc e, meta e)) (docs c)
      | Some is \<Rightarrow>
          List.map_filter
            (\<lambda>i. map_option (\<lambda>e. (i, doc e, meta e)) (map_of (docs c) i)) is)"

text \<open>Modelled from the spec: \<^verbatim>\<open>collection.count\<close>, the number of stored documents.\<close>

definition coll_count :: "collection \<Rightarrow> nat" where
  "coll_count c = length (docs c)"

text \<open>
  Modelled from the spec: \<^verbatim>\<open>collection.delete(ids=...)\<close>, the delete of the persistence
  contract, which has no error of its own. Every listed id that is stored is removed; an
  id that is not stored is passed over.
\<close>

definition coll_delete :: "collection \<Rightarrow> string list \<Rightarrow> error + collection" where
  "coll_delete c ids = Inr (c\<lparr>docs := fold AList.delete ids (docs c)\<rparr>)"

text \<open>
  Modelled from the spec: \<^verbatim>\<open>collection.update\<close> for one id. An unknown id is
  \<open>NotFound\<close>; a new embedding must have the locked dimension; the text (with its
  embedding) and the metadata are replaced only where they are supplied.
\<close>

definition coll_update ::
  "collection \<Rightarrow> string \<Rightarrow> (vector \<times> string) option \<Rightarrow> metadata option \<Rightarrow> error + collection" where
  "coll_update c i new_text new_metadata =
     (case map_of (docs c) i of
        None \<Rightarrow> Inl NotFound
      | Some e \<Rightarrow>
          (case new_text of
             Some (v, t) \<Rightarrow>
               if \<not> dimension_ok (dimension c) [v] then Inl DimensionMismatch
               else Inr (c\<lparr>docs := AList.update i
                           \<lparr>emb = v, doc = t,
                            meta = (case new_metadata of None \<Rightarrow> meta e | Some m \<Rightarrow> m)\<rparr>
                           (docs c)\<rparr>)
           | None \<Rightarrow>
               Inr (c\<lparr>docs := AList.update i
                      (e\<lparr>meta := (case new_metadata of None \<Rightarrow> meta e | Some m \<Rightarrow> m)\<rparr>)
                      (docs c)\<rparr>)))"

subsection \<open>\<^verbatim>\<open>VectorDB\<close>: CRUD over the collection\<close>

text \<open>\<^verbatim>\<open>_generate_embedding\<close>: one call of the encoder on one text.\<close>

definition generate_embedding :: "(string \<Rightarrow> vector) \<Rightarrow> vdb \<Rightarrow> string \<Rightarrow> vector \<times> vdb" where
  "generate_embedding enc s text = (enc text, s\<lparr>calls := calls s @ [Encode [text]]\<rparr>)"

text \<open>\<^verbatim>\<open>_generate_id\<close>: the next value of \<^verbatim>\<open>uuid.uuid4\<close>.\<close>

definition generate_id :: "(nat \<Rightarrow> string) \<Rightarrow> vdb \<Rightarrow> string \<times> vdb" where
  "generate_id uuid4 s = (uuid4 (uuids_drawn s), s\<lparr>uuids_drawn := Suc (uuids_drawn s)\<rparr>)"

text \<open>
  The call \<^verbatim>\<open>self.collection.add(embeddings=..., documents=..., metadatas=..., ids=...)\<close>:
  it is recorded in the trace, and the collection changes only when the collaborator
  accepts it. An error of the collaborator propagates (no \<^verbatim>\<open>try\<close> around it).
\<close>

definition collection_add ::
  "vdb \<Rightarrow> vector list \<Rightarrow> string list \<Rightarrow> metadata list \<Rightarrow> string list \<Rightarrow> (error + unit) \<times> vdb" where
  "collection_add s embeddings documents metadatas ids =
     (let s' = s\<lparr>calls := calls s @ [CollAdd ids]\<rparr> in
      case coll_add (collection s) embeddings documents metadatas ids of
        Inl err \<Rightarrow> (Inl err, s')
      | Inr c \<Rightarrow> (Inr (), s'\<lparr>collection := c\<rparr>))"

definition add_document ::
  "(string \<Rightarrow> vector) \<Rightarrow> (nat \<Rightarrow> string) \<Rightarrow> vdb \<Rightarrow> string \<Rightarrow> metadata option \<Rightarrow> string option
     \<Rightarrow> (error + string) \<times> vdb" where
  "add_document enc uuid4 s text metadata document_id =
     (let (document_id, s1) =
            (case document_id of None \<Rightarrow> generate_id uuid4 s | Some i \<Rightarrow> (i, s));
          metadata = (case metadata of None \<Rightarrow> [] | Some m \<Rightarrow> m);
          (embedding, s2) = generate_embedding enc s1 text
      in case collection_add s2 [embedding] [text] [metadata] [document_id] of
           (Inl err, s3) \<Rightarrow> (Inl err, s3)
         | (Inr _, s3) \<Rightarrow> (Inr document_id, s3))"

text \<open>
  \<^verbatim>\<open>[self._generate_id() for _ in texts]\<close> and
  \<^verbatim>\<open>[self._generate_embedding(text) for text in texts]\<close>: one call per text, left to right.
\<close>

fun generate_ids :: "(nat \<Rightarrow> string) \<Rightarrow> vdb \<Rightarrow> 'a list \<Rightarrow> string list \<times> vdb" where
  "generate_ids uuid4 s [] = ([], s)"
| "generate_ids uuid4 s (_ # ts) =
     (let (i, s1) = generate_id uuid4 s;
          (is, s2) = generate_ids uuid4 s1 ts
      in (i # is, s2))"

fun generate_embeddings :: "(string \<Rightarrow> vector) \<Rightarrow> vdb \<Rightarrow> string list \<Rightarrow> vector list \<times> vdb" where
  "generate_embeddings enc s [] = ([], s)"
| "generate_embeddings enc s (t # ts) =
     (let (e, s1) = generate_embedding enc s t;
          (es, s2) = generate_embeddings enc s1 ts
      in (e # es, s2))"

definition add_documents_batch ::
  "(string \<Rightarrow> vector) \<Rightarrow> (nat \<Rightarrow> string) \<Rightarrow> vdb \<Rightarrow> string list \<Rightarrow> metadata list option
     \<Rightarrow> string list option \<Rightarrow> (error + string list) \<times> vdb" where
  "add_documents_batch enc uuid4 s texts metadatas ids =
     (let (ids, s1) = (case ids of None \<Rightarrow> generate_ids uuid4 s texts | Some is \<Rightarrow> (is, s));
          metadatas = (case metadatas of None \<Rightarrow> map (\<lambda>_. []) texts | Some ms \<Rightarrow> ms);
          (embeddings, s2) = generate_embeddings enc s1 texts
      in case collection_add s2 embeddings texts metadatas ids of
           (Inl err, s3) \<Rightarrow> (Inl err, s3)
         | (Inr _, s3) \<Rightarrow> (Inr ids, s3))"

text \<open>
  \<^verbatim>\<open>get_document\<close>: the dictionary \<^verbatim>\<open>{'id', 'document', 'metadata'}\<close> of the first row the
  collaborator returns, \<^verbatim>\<open>None\<close> when it returns none. The collaborator's get does not
  raise, so the \<^verbatim>\<open>except\<close> branch (which also returns \<^verbatim>\<open>None\<close>) is never taken.
\<close>

record doc_view =
  view_id :: string
  view_document :: string
  view_metadata :: metadata

definition get_document :: "vdb \<Rightarrow> string \<Rightarrow> doc_view option" where
  "get_document s document_id =
     (case coll_get (collection s) (Some [document_id]) of
        [] \<Rightarrow> None
      | (i, t, m) # _ \<Rightarrow> Some \<lparr>view_id = i, view_document = t, view_metadata = m\<rparr>)"

definition count_documents :: "vdb \<Rightarrow> nat" where
  "count_documents s = coll_count (collection s)"

text \<open>
  \<^verbatim>\<open>update_document\<close>: \<^verbatim>\<open>update_data\<close> stays empty when neither a text nor a metadata
  dictionary is given, and then the collaborator is not called. Any exception is caught
  and reported as \<^verbatim>\<open>False\<close>.
\<close>

definition update_document ::
  "(string \<Rightarrow> vector) \<Rightarrow> vdb \<Rightarrow> string \<Rightarrow> string option \<Rightarrow> metadata option \<Rightarrow> bool \<times> vdb" where
  "update_document enc s document_id text metadata =
     (let (new_text, s1) =
            (case text of
               None \<Rightarrow> (None, s)
             | Some t \<Rightarrow> (let (e, s') = generate_embedding enc s t in (Some (e, t), s')))
      in if new_text \<noteq> None \<or> metadata \<noteq> None then
           (case coll_update (collection s1) document_id new_text metadata of
              Inl err \<Rightarrow> (False, s1)
            | Inr c \<Rightarrow> (True, s1\<lparr>collection := c\<rparr>))
         else (False, s1))"

text \<open>
  \<^verbatim>\<open>delete_document\<close>: \<^verbatim>\<open>True\<close> when the collaborator's delete returns, \<^verbatim>\<open>False\<close> when it
  raises. The source makes no check of its own that the id is stored.
\<close>

definition delete_document :: "vdb \<Rightarrow> string \<Rightarrow> bool \<times> vdb" where
  "delete_document s document_id =
     (case coll_delete (collection s) [document_id] of
        Inl err \<Rightarrow> (False, s)
      | Inr c \<Rightarrow> (True, s\<lparr>collection := c\<rparr>))"

subsection \<open>Python's \<^verbatim>\<open>str.lower\<close> and \<^verbatim>\<open>str.split\<close>\<close>

text \<open>
  The two string methods \<^verbatim>\<open>hybrid_search\<close> uses, on ASCII text: \<^verbatim>\<open>lower\<close> maps \<open>A\<close> to
  \<open>Z\<close> onto \<open>a\<close> to \<open>z\<close>; \<^verbatim>\<open>split()\<close> cuts at runs of whitespace and returns no empty
  token.
\<close>

definition py_lower_char :: "char \<Rightarrow> char" where
  "py_lower_char c =
     (let n = (of_char c :: nat) in if 65 \<le> n \<and> n \<le> 90 then char_of (n + 32) else c)"

definition py_lower :: "string \<Rightarrow> string" where
  "py_lower s = map py_lower_char s"

definition py_isspace :: "char \<Rightarrow> bool" where
  "py_isspace c = (let n = (of_char c :: nat) in (9 \<le> n \<and> n \<le> 13) \<or> (28 \<le> n \<and> n \<le> 32))"

fun split_from :: "string \<Rightarrow> string \<Rightarrow> string list" where
  "split_from w [] = (if w = [] then [] else [w])"
| "split_from w (c # cs) =
     (if py_isspace c then (if w = [] then split_from [] cs else w # split_from [] cs)
      else split_from (w @ [c]) cs)"

definition py_split :: "string \<Rightarrow> string list" where
  "py_split s = split_from [] s"

subsection \<open>Nearest-neighbour query of the persistence collaborator\<close>

record query_result =
  res_ids :: "string list"
  res_documents :: "string list"
  res_metadatas :: "metadata list"
  res_distances :: "real list"

text \<open>
  Modelled from the spec: the metadata filter of the collaborator. Every key/value pair
  of the filter must be matched exactly; no filter matches every document.
\<close>

definition matches_where :: "metadata option \<Rightarrow> metadata \<Rightarrow> bool" where
  "matches_where wh m =
     (case wh of None \<Rightarrow> True | Some w \<Rightarrow> list_all (\<lambda>(k, v). map_of m k = Some v) w)"

text \<open>
  Modelled from the spec: \<^verbatim>\<open>collection.query\<close> for one query embedding, the \<open>nearest\<close>
  primitive of the persistence contract. Among the documents whose metadata satisfies
  the filter, it returns the \<open>n\<close> nearest by the configured distance metric, ascending by
  distance, ties broken by id ascending. The result is column-wise, as the source reads
  it.
\<close>

definition coll_query ::
  "(vector \<Rightarrow> vector \<Rightarrow> real) \<Rightarrow> collection \<Rightarrow> vector \<Rightarrow> nat \<Rightarrow> metadata option \<Rightarrow> query_result" where
  "coll_query metric c q n wh =
     (let cands = filter (\<lambda>(i, e). matches_where wh (meta e)) (docs c);
          ranked = take n (sort_key (\<lambda>(i, e). metric q (emb e)) (sort_key fst cands))
      in \<lparr>res_ids = map fst ranked,
          res_documents = map (\<lambda>(i, e). doc e) ranked,
          res_metadatas = map (\<lambda>(i, e). meta e) ranked,
          res_distances = map (\<lambda>(i, e). metric q (emb e)) ranked\<rparr>)"

subsection \<open>\<^verbatim>\<open>AdvancedVectorDB\<close>: chunked ingestion, search, statistics\<close>

text \<open>\<^verbatim>\<open>_generate_embeddings_batch\<close>: one call of the encoder on a list of texts.\<close>

definition generate_embeddings_batch ::
  "(string \<Rightarrow> vector) \<Rightarrow> vdb \<Rightarrow> string list \<Rightarrow> vector list \<times> vdb" where
  "generate_embeddings_batch enc s texts = (map enc texts, s\<lparr>calls := calls s @ [Encode texts]\<rparr>)"

text \<open>
  The loop \<^verbatim>\<open>for i in range(0, total_docs, batch_size)\<close> of \<^verbatim>\<open>add_documents_batch\<close>,
  for a positive step: \<open>i\<close> is the loop variable, \<open>added_ids\<close> the accumulator. A slice
  \<^verbatim>\<open>xs[i:i + batch_size]\<close> is \<open>take batch_size (drop i xs)\<close>. An error of the collaborator
  leaves the loop at once.
\<close>

function batch_loop ::
  "(string \<Rightarrow> vector) \<Rightarrow> nat \<Rightarrow> string list \<Rightarrow> metadata list \<Rightarrow> string list \<Rightarrow> nat \<Rightarrow> vdb
     \<Rightarrow> string list \<Rightarrow> (error + string list) \<times> vdb" where
  "batch_loop enc batch_size texts metadatas ids i s added_ids =
     (if i < length texts \<and> 0 < batch_size then
        (let batch_texts = take batch_size (drop i texts);
             batch_metadatas = take batch_size (drop i metadatas);
             batch_ids = take batch_size (drop i ids);
             es = generate_embeddings_batch enc s batch_texts;
             r = collection_add (snd es) (fst es) batch_texts batch_metadatas batch_ids
         in case fst r of
              Inl err \<Rightarrow> (Inl err, snd r)
            | Inr _ \<Rightarrow>
                batch_loop enc batch_size texts metadatas ids (i + batch_size) (snd r)
                  (added_ids @ batch_ids))
      else (Inr added_ids, s))"
  by pat_completeness auto
termination
  by (relation "measure (\<lambda>(enc, batch_size, texts, metadatas, ids, i, s, added_ids). length texts - i)")
    auto

text \<open>
  \<^verbatim>\<open>AdvancedVectorDB.add_documents_batch\<close>. Python's \<^verbatim>\<open>range\<close> raises \<^verbatim>\<open>ValueError\<close> for a
  step of zero and is empty for a negative step.
\<close>

definition adv_add_documents_batch ::
  "(string \<Rightarrow> vector) \<Rightarrow> vdb \<Rightarrow> string list \<Rightarrow> metadata list \<Rightarrow> string list \<Rightarrow> int
     \<Rightarrow> (error + string list) \<times> vdb" where
  "adv_add_documents_batch enc s texts metadatas ids batch_size =
     (if batch_size = 0 then (Inl ValueError, s)
      else if batch_size < 0 then (Inr [], s)
      else batch_loop enc (nat batch_size) texts metadatas ids 0 s [])"

text \<open>
  \<^verbatim>\<open>AdvancedVectorDB.search_similar\<close>: one encoder call on \<^verbatim>\<open>[query_text]\<close>, one query of
  the collaborator. The \<^verbatim>\<open>search_time\<close> entry (wall-clock time) is left out. \<open>n_results\<close>
  is a count.
\<close>

definition adv_search_similar ::
  "(string \<Rightarrow> vector) \<Rightarrow> (vector \<Rightarrow> vector \<Rightarrow> real) \<Rightarrow> vdb \<Rightarrow> string \<Rightarrow> nat \<Rightarrow> metadata option
     \<Rightarrow> query_result \<times> vdb" where
  "adv_search_similar enc metric s query_text n_results wh =
     (let query_embedding = enc query_text;
          s1 = s\<lparr>calls := calls s @ [Encode [query_text]]\<rparr>
      in (coll_query metric (collection s1) query_embedding n_results wh, s1))"

text \<open>
  One entry of \<^verbatim>\<open>hybrid_results\<close>. The source binds the third component of the zipped
  candidate, the distance, to the name \<^verbatim>\<open>semantic_score\<close> and stores it under that key.
\<close>

record hit =
  hit_id :: string
  hit_document :: string
  semantic_score :: real
  keyword_score :: real
  combined_score :: real

record hybrid_result =
  results :: "hit list"
  total_found :: nat

text \<open>The body of the scoring loop of \<^verbatim>\<open>hybrid_search\<close>, for one candidate.\<close>

definition score_candidate :: "string set \<Rightarrow> real \<Rightarrow> string \<times> string \<times> real \<Rightarrow> hit" where
  "score_candidate query_keywords keyword_weight cand =
     (case cand of (doc_id, document, distance) \<Rightarrow>
        let doc_keywords = set (py_split (py_lower document));
            keyword_matches = card (query_keywords \<inter> doc_keywords);
            kw_score = (if query_keywords \<noteq> {}
                        then real keyword_matches / real (card query_keywords) else 0);
            combined = (1 - keyword_weight) * (1 - distance) + keyword_weight * kw_score
        in \<lparr>hit_id = doc_id, hit_document = document, semantic_score = distance,
            keyword_score = kw_score, combined_score = combined\<rparr>)"

text \<open>
  \<^verbatim>\<open>hybrid_search\<close>. \<^verbatim>\<open>list.sort(key=..., reverse=True)\<close> is a stable sort into descending
  order of the key: entries with equal keys keep their order, which is what the stable
  \<^const>\<open>sort_key\<close> does on the negated key.
\<close>

definition hybrid_search ::
  "(string \<Rightarrow> vector) \<Rightarrow> (vector \<Rightarrow> vector \<Rightarrow> real) \<Rightarrow> vdb \<Rightarrow> string \<Rightarrow> nat \<Rightarrow> real
     \<Rightarrow> hybrid_result \<times> vdb" where
  "hybrid_search enc metric s query n_results keyword_weight =
     (let sr = adv_search_similar enc metric s query (n_results * 2) None;
          semantic_results = fst sr;
          query_keywords = set (py_split (py_lower query));
          hybrid_results =
            map (score_candidate query_keywords keyword_weight)
              (zip (res_ids semantic_results)
                 (zip (res_documents semantic_results) (res_distances semantic_results)));
          sorted_results = sort_key (\<lambda>x. - combined_score x) hybrid_results
      in (\<lparr>results = take n_results sorted_results, total_found = length sorted_results\<rparr>,
          snd sr))"

text \<open>
  \<^verbatim>\<open>get_statistics\<close>. The two metadata entries exist only when the collection returns at
  least one metadata dictionary. \<^verbatim>\<open>list(metadata_keys)\<close> lists a Python set, in no
  particular order; here the keys stand in order of first occurrence. \<open>str\<close> is Python's
  \<^verbatim>\<open>str\<close> on metadata values and \<open>enc_dim\<close> the encoder's
  \<^verbatim>\<open>get_sentence_embedding_dimension()\<close>.
\<close>

record statistics =
  total_documents :: nat
  stat_collection_name :: string
  embedding_model :: nat
  metadata_fields :: "string list option"
  metadata_unique_counts :: "(string \<times> nat) list option"

definition unique_count :: "(pyval \<Rightarrow> string) \<Rightarrow> metadata list \<Rightarrow> string \<Rightarrow> nat" where
  "unique_count str all_metadatas key =
     (let values = List.map_filter (\<lambda>m. map_of m key) all_metadatas
      in card (set (map str (filter (\<lambda>v. v \<noteq> PNone) values))))"

definition get_statistics :: "(pyval \<Rightarrow> string) \<Rightarrow> nat \<Rightarrow> vdb \<Rightarrow> statistics" where
  "get_statistics str enc_dim s =
     (let all_docs = coll_get (collection s) None;
          all_metadatas = map (\<lambda>(i, t, m). m) all_docs
      in if all_metadatas \<noteq> [] then
           (let metadata_keys = remdups (concat (map (map fst) all_metadatas))
            in \<lparr>total_documents = length all_docs,
                stat_collection_name = collection_name s,
                embedding_model = enc_dim,
                metadata_fields = Some metadata_keys,
                metadata_unique_counts =
                  Some (map (\<lambda>key. (key, unique_count str all_metadatas key)) metadata_keys)\<rparr>)
         else \<lparr>total_documents = length all_docs,
               stat_collection_name = collection_name s,
               embedding_model = enc_dim,
               metadata_fields = None,
               metadata_unique_counts = None\<rparr>)"

subsection \<open>Chunks, as the specification words them\<close>

text \<open>
  The specification's chunking: consecutive pieces of at most \<open>c\<close> items, the last one
  possibly smaller. It is stated on its own, to be compared with the slices the loop of
  \<^verbatim>\<open>add_documents_batch\<close> takes.
\<close>

function chunks :: "nat \<Rightarrow> 'a list \<Rightarrow> 'a list list" where
  "chunks c xs = (if xs = [] \<or> c = 0 then [] else take c xs # chunks c (drop c xs))"
  by pat_completeness auto
termination
  by (relation "measure (\<lambda>(c, xs). length xs)") auto

declare chunks.simps [simp del]
declare batch_loop.simps [simp del]

text \<open>The rows one insert call hands to the collection, as the proofs name them.\<close>

definition rows_of :: "(string \<Rightarrow> vector) \<Rightarrow> string list \<Rightarrow> metadata list \<Rightarrow> string list \<Rightarrow> (string \<times> entry) list" where
  "rows_of enc ts ms is =
     zip is (map (\<lambda>(e, t, m). \<lparr>emb = e, doc = t, meta = m\<rparr>) (zip (map enc ts) (zip ts ms)))"

subsection \<open>Ranking and scoring, as the specification words them\<close>

text \<open>
  The full ranking the nearest-neighbour query cuts its answer from: the documents that
  pass the filter, ascending by distance, ties by id ascending.
\<close>

definition ranked :: "(vector \<Rightarrow> vector \<Rightarrow> real) \<Rightarrow> collection \<Rightarrow> vector \<Rightarrow> metadata option \<Rightarrow> (string \<times> entry) list" where
  "ranked metric c q wh =
     sort_key (\<lambda>(i, e). metric q (emb e))
       (sort_key fst (filter (\<lambda>(i, e). matches_where wh (meta e)) (docs c)))"

text \<open>
  The specification's \<open>keyword_score\<close>: \<open>|query_tokens \<inter> doc_tokens| / |query_tokens|\<close> over
  lowercase whitespace-delimited token sets, 0 when the query has no tokens.
\<close>

definition overlap_fraction :: "string \<Rightarrow> string \<Rightarrow> real" where
  "overlap_fraction query document =
     (let query_tokens = set (py_split (py_lower query));
          doc_tokens = set (py_split (py_lower document))
      in if query_tokens = {} then 0
         else real (card (query_tokens \<inter> doc_tokens)) / real (card query_tokens))"

text \<open>
  The scored candidates of a hybrid search that fetches \<open>n\<close> candidates: one entry per
  candidate, in ranking order, with the distance under \<open>semantic_score\<close>.
\<close>

definition scored :: "(string \<Rightarrow> vector) \<Rightarrow> (vector \<Rightarrow> vector \<Rightarrow> real) \<Rightarrow> vdb \<Rightarrow> string \<Rightarrow> nat \<Rightarrow> real \<Rightarrow> hit list" where
  "scored enc metric s query n kw =
     map (\<lambda>(i, e). \<lparr>hit_id = i, hit_document = doc e,
                     semantic_score = metric (enc query) (emb e),
                     keyword_score = overlap_fraction query (doc e),
                     combined_score = (1 - kw) * (1 - metric (enc query) (emb e))
                                        + kw * overlap_fraction query (doc e)\<rparr>)
       (take n (ranked metric (collection s) (enc query) None))"

subsection \<open>A small store for concrete runs\<close>

text \<open>
  A toy encoder (text length and number of blanks), the squared Euclidean distance, a
  counter-based id source and a partial \<^verbatim>\<open>str\<close>, used to run the functions above on
  concrete inputs.
\<close>

definition demo_enc :: "string \<Rightarrow> vector" where
  "demo_enc t = [real (length t), real (length (filter (\<lambda>c. c = CHR '' '') t))]"

definition demo_dist :: "vector \<Rightarrow> vector \<Rightarrow> real" where
  "demo_dist a b = sum_list (map (\<lambda>(x, y). (x - y) * (x - y)) (zip a b))"

definition demo_uuid4 :: "nat \<Rightarrow> string" where
  "demo_uuid4 n = replicate (Suc n) CHR ''u''"

fun demo_str :: "pyval \<Rightarrow> string" where
  "demo_str PNone = ''None''"
| "demo_str (PStr s) = s"
| "demo_str (PBool b) = (if b then ''True'' else ''False'')"
| "demo_str (PInt n) = (if n = 0 then ''0'' else if n = 1 then ''1'' else ''n'')"
| "demo_str (PFloat x) = ''x''"

definition empty_db :: vdb where
  "empty_db = \<lparr>collection = \<lparr>docs = [], dimension = None\<rparr>, collection_name = ''documents'',
               calls = [], uuids_drawn = 0\<rparr>"

text \<open>The store after \<^verbatim>\<open>add_document("a cat", None, "doc1")\<close> on the empty store.\<close>

definition one_db :: vdb where
  "one_db = \<lparr>collection = \<lparr>docs = [(''doc1'', \<lparr>emb = [5, 1], doc = ''a cat'', meta = []\<rparr>)],
                               dimension = Some 2\<rparr>,
             collection_name = ''documents'',
             calls = [Encode [''a cat''], CollAdd [''doc1'']], uuids_drawn = 0\<rparr>"

text \<open>A store of two documents with metadata.\<close>

definition pets_db :: vdb where
  "pets_db = \<lparr>collection =
       \<lparr>docs = [(''doc1'', \<lparr>emb = [5, 1], doc = ''a cat'', meta = [(''kind'', PStr ''pet''), (''legs'', PInt 1)]\<rparr>),
                (''doc2'', \<lparr>emb = [9, 2], doc = ''a big dog'', meta = [(''kind'', PStr ''pet'')]\<rparr>)],
        dimension = Some 2\<rparr>,
     collection_name = ''documents'', calls = [], uuids_drawn = 0\<rparr>"

section \<open>Properties\<close>

subsection \<open>Single-document operations\<close>

lemma length_alist_update:
  "length (AList.update k v al) = (if k \<in> fst ` set al then length al else Suc (length al))"
  by (induct al) auto

lemma coll_add_single:
  "coll_add c [e] [t] [m] [i] =
     (if dimension c = None \<or> dimension c = Some (length e)
      then Inr \<lparr>docs = AList.update i \<lparr>emb = e, doc = t, meta = m\<rparr> (docs c),
                dimension = Some (length e)\<rparr>
      else Inl DimensionMismatch)"
  by (auto simp: coll_add_def lock_dimension_def dimension_ok_def upsert_all_def Let_def
      split: option.splits)

lemma coll_get_single:
  "coll_get c (Some [i]) =
     (case map_of (docs c) i of None \<Rightarrow> [] | Some e \<Rightarrow> [(i, doc e, meta e)])"
  by (simp add: coll_get_def List.map_filter_def split: option.splits)

lemma get_document_lookup:
  "get_document s i =
     map_option (\<lambda>e. \<lparr>view_id = i, view_document = doc e, view_metadata = meta e\<rparr>)
       (map_of (docs (collection s)) i)"
  by (simp add: get_document_def coll_get_single split: option.splits)

text \<open>
  What \<^verbatim>\<open>add_document\<close> does in full: it draws an id when none is given, encodes the text
  once, calls the collection once, and either stores the document under the id or leaves
  the collection as it was.
\<close>

lemma add_document_result:
  "add_document enc uuid4 s t m document_id =
     (let j = (case document_id of None \<Rightarrow> uuid4 (uuids_drawn s) | Some i \<Rightarrow> i);
          n = (case document_id of None \<Rightarrow> Suc (uuids_drawn s) | Some i \<Rightarrow> uuids_drawn s);
          tr = calls s @ [Encode [t], CollAdd [j]]
      in if dimension (collection s) = None \<or> dimension (collection s) = Some (length (enc t))
         then (Inr j, s\<lparr>collection :=
                          \<lparr>docs = AList.update j
                                     \<lparr>emb = enc t, doc = t,
                                      meta = (case m of None \<Rightarrow> [] | Some x \<Rightarrow> x)\<rparr>
                                     (docs (collection s)),
                           dimension = Some (length (enc t))\<rparr>,
                        calls := tr, uuids_drawn := n\<rparr>)
         else (Inl DimensionMismatch, s\<lparr>calls := tr, uuids_drawn := n\<rparr>))"
  by (cases document_id)
    (simp_all add: add_document_def generate_id_def generate_embedding_def collection_add_def
      coll_add_single Let_def)

lemma add_document_one_db:
  "add_document demo_enc demo_uuid4 empty_db ''a cat'' None (Some ''doc1'') = (Inr ''doc1'', one_db)"
  by (simp add: add_document_result empty_db_def one_db_def demo_enc_def Let_def numeral_2_eq_2)

text \<open>
  C1. Round trip: for every text \<open>t\<close> and metadata mapping \<open>m\<close>, \<^verbatim>\<open>add_document(t, m)\<close>
  returns an id, and \<^verbatim>\<open>get_document\<close> on that id yields the document with text \<open>t\<close> and
  metadata \<open>m\<close>. The add returns whenever the embedding of \<open>t\<close> has the dimension of the
  collection (or the collection has none yet), which is so for every text under one
  encoder; the id may be given or drawn.
\<close>

theorem add_then_get:
  assumes "dimension (collection s) = None \<or> dimension (collection s) = Some (length (enc t))"
  shows "\<exists>j s'. add_document enc uuid4 s t (Some m) document_id = (Inr j, s')
           \<and> get_document s' j = Some \<lparr>view_id = j, view_document = t, view_metadata = m\<rparr>"
  using assms
  by (auto simp: add_document_result get_document_lookup Let_def update_conv')

theorem add_then_get_witness:
  "dimension (collection one_db) = Some (length (demo_enc ''two dogs''))
   \<and> (\<exists>j s'. add_document demo_enc demo_uuid4 one_db ''two dogs''
                (Some [(''kind'', PStr ''pet'')]) None = (Inr j, s')
         \<and> get_document s' j =
             Some \<lparr>view_id = j, view_document = ''two dogs'',
                   view_metadata = [(''kind'', PStr ''pet'')]\<rparr>)"
proof -
  have d: "dimension (collection one_db) = Some (length (demo_enc ''two dogs''))"
    by (simp add: one_db_def demo_enc_def)
  then have "dimension (collection one_db) = None
      \<or> dimension (collection one_db) = Some (length (demo_enc ''two dogs''))"
    by simp
  from add_then_get [of one_db demo_enc "''two dogs''" demo_uuid4 "[(''kind'', PStr ''pet'')]" None, OF this]
    d show ?thesis
    by blast
qed

text \<open>
  C2. Upsert idempotence: after \<^verbatim>\<open>add_document\<close> has stored a document under an explicit
  id, a second \<^verbatim>\<open>add_document\<close> with the same id (any text of the same embedding
  dimension, any metadata) succeeds, overwrites the stored document, and leaves
  \<^verbatim>\<open>count_documents\<close> unchanged.
\<close>

theorem add_same_id_twice:
  assumes "add_document enc uuid4 s t1 m1 (Some i) = (Inr j, s1)"
    and "length (enc t2) = length (enc t1)"
  shows "\<exists>s2. add_document enc uuid4 s1 t2 m2 (Some i) = (Inr i, s2)
           \<and> count_documents s2 = count_documents s1
           \<and> get_document s2 i =
               Some \<lparr>view_id = i, view_document = t2,
                     view_metadata = (case m2 of None \<Rightarrow> [] | Some m \<Rightarrow> m)\<rparr>"
  using assms
  by (auto simp: add_document_result get_document_lookup Let_def update_conv'
      count_documents_def coll_count_def length_alist_update dom_update split: if_splits)

theorem add_same_id_twice_witness:
  "\<exists>s2. add_document demo_enc demo_uuid4 one_db ''a dog'' None (Some ''doc1'') = (Inr ''doc1'', s2)
      \<and> count_documents s2 = count_documents one_db
      \<and> get_document s2 ''doc1'' =
          Some \<lparr>view_id = ''doc1'', view_document = ''a dog'', view_metadata = []\<rparr>"
proof -
  have len: "length (demo_enc ''a dog'') = length (demo_enc ''a cat'')"
    by (simp add: demo_enc_def)
  from add_same_id_twice [OF add_document_one_db len, of None] show ?thesis
    by simp
qed

text \<open>
  The dimension of a collection: the first successful insert sets it, and an insert never
  changes it afterwards.
\<close>

lemma first_insert_locks:
  assumes "dimension (collection s) = None"
  shows "\<exists>j s'. add_document enc uuid4 s t m document_id = (Inr j, s')
            \<and> dimension (collection s') = Some (length (enc t))"
  using assms by (auto simp: add_document_result Let_def)

lemma add_keeps_lock:
  assumes "dimension (collection s) = Some D"
  shows "dimension (collection (snd (add_document enc uuid4 s t m document_id))) = Some D"
  using assms by (auto simp: add_document_result Let_def)

text \<open>
  C3. Dimension lock: once the collection is locked to dimension \<open>D\<close> (by its first
  successful insert), every \<^verbatim>\<open>add_document\<close> whose embedding has a length different from
  \<open>D\<close> fails with \<open>DimensionMismatch\<close>; the collection is exactly what it was, so nothing
  was written, and \<^verbatim>\<open>count_documents\<close> is unchanged.
\<close>

theorem dimension_lock:
  assumes "dimension (collection s) = Some D" and "length (enc t) \<noteq> D"
  shows "\<exists>s'. add_document enc uuid4 s t m document_id = (Inl DimensionMismatch, s')
           \<and> collection s' = collection s \<and> count_documents s' = count_documents s"
  using assms by (auto simp: add_document_result Let_def count_documents_def)

theorem dimension_lock_witness:
  "dimension (collection one_db) = Some 2
   \<and> (\<exists>s'. add_document (\<lambda>t. [1, 2, 3]) demo_uuid4 one_db ''a dog'' None None
               = (Inl DimensionMismatch, s')
         \<and> collection s' = collection one_db \<and> count_documents s' = count_documents one_db)"
proof -
  have d: "dimension (collection one_db) = Some 2"
    by (simp add: one_db_def)
  have l: "length ((\<lambda>t. [1, 2, 3 :: real]) ''a dog'') \<noteq> 2"
    by simp
  from dimension_lock [OF d l] d show ?thesis
    by blast
qed

text \<open>
  \<^verbatim>\<open>delete_document\<close> answers \<^verbatim>\<open>False\<close> exactly when the collaborator's delete fails, whatever
  the id.
\<close>

lemma delete_document_False_iff:
  "fst (delete_document s document_id) = False
     \<longleftrightarrow> (\<exists>err. coll_delete (collection s) [document_id] = Inl err)"
  by (cases "coll_delete (collection s) [document_id]") (simp_all add: delete_document_def)

text \<open>
  C8, as the code has it. For every id that is not in the collection, \<^verbatim>\<open>delete_document\<close>
  raises nothing and leaves the store, and with it \<^verbatim>\<open>count_documents\<close>, unchanged; it
  returns \<^verbatim>\<open>True\<close>, because the collaborator's delete completes and the source does not
  look whether the id was stored.
\<close>

theorem delete_absent:
  assumes "document_id \<notin> fst ` set (docs (collection s))"
  shows "delete_document s document_id = (True, s)
         \<and> count_documents (snd (delete_document s document_id)) = count_documents s"
  using assms by (simp add: delete_document_def coll_delete_def)

theorem delete_absent_witness:
  "''doc1'' \<notin> fst ` set (docs (collection empty_db))
   \<and> delete_document empty_db ''doc1'' = (True, empty_db)
   \<and> count_documents (snd (delete_document empty_db ''doc1'')) = count_documents empty_db"
proof -
  have a: "''doc1'' \<notin> fst ` set (docs (collection empty_db))"
    by (simp add: empty_db_def)
  from delete_absent [OF a] a show ?thesis
    by simp
qed

text \<open>
  The claim as stated fails on the returned value: deleting the id \<open>doc2\<close>, which the store
  does not hold, returns \<^verbatim>\<open>True\<close>, not \<^verbatim>\<open>False\<close>. The store is unchanged.
\<close>

theorem delete_absent_returns_true_counterexample:
  "delete_document one_db ''doc2'' = (True, one_db)"
  by (simp add: delete_document_def coll_delete_def one_db_def)

subsection \<open>Update without data\<close>

text \<open>
  C10. Calling \<^verbatim>\<open>update_document\<close> with neither a new text nor new metadata returns
  \<^verbatim>\<open>False\<close> and writes nothing: the whole state, and so every stored document's text,
  embedding and metadata, is what it was.
\<close>

theorem update_document_no_data:
  "update_document enc s document_id None None = (False, s)"
  by (simp add: update_document_def)

theorem update_document_no_data_witness:
  "update_document demo_enc one_db ''doc1'' None None = (False, one_db)"
  using update_document_no_data [of demo_enc one_db "''doc1''"] by simp



subsection \<open>Batch add of \<^verbatim>\<open>VectorDB\<close>\<close>

lemma generate_embeddings_result:
  "generate_embeddings enc s texts =
     (map enc texts, s\<lparr>calls := calls s @ map (\<lambda>t. Encode [t]) texts\<rparr>)"
  by (induction texts arbitrary: s) (simp_all add: generate_embedding_def)

lemma generate_ids_length: "length (fst (generate_ids uuid4 s texts)) = length texts"
  by (induction texts arbitrary: s) (simp_all add: generate_id_def case_prod_beta)

lemma generate_ids_collection: "collection (snd (generate_ids uuid4 s texts)) = collection s"
  by (induction texts arbitrary: s) (simp_all add: generate_id_def case_prod_beta)

lemma generate_ids_calls: "calls (snd (generate_ids uuid4 s texts)) = calls s"
  by (induction texts arbitrary: s) (simp_all add: generate_id_def case_prod_beta)

text \<open>
  C7, as the code has it. When the supplied \<^verbatim>\<open>metadatas\<close> or \<^verbatim>\<open>ids\<close> list has a length
  different from \<^verbatim>\<open>texts\<close>, \<^verbatim>\<open>VectorDB.add_documents_batch\<close> fails with \<open>InvalidArgument\<close>
  and nothing is written to the collection. The source has no length check of its own:
  it first computes the embedding of every text, then calls the collection, and it is the
  collection that rejects the call. So the failure comes after the embeddings, not
  before them.
\<close>

theorem batch_length_mismatch:
  assumes "(\<exists>ms. metadatas = Some ms \<and> length ms \<noteq> length texts)
           \<or> (\<exists>is. ids = Some is \<and> length is \<noteq> length texts)"
  shows "\<exists>s' ids'. add_documents_batch enc uuid4 s texts metadatas ids = (Inl InvalidArgument, s')
           \<and> collection s' = collection s
           \<and> calls s' = calls s @ map (\<lambda>t. Encode [t]) texts @ [CollAdd ids']"
proof -
  obtain is0 s1 where g: "(case ids of None \<Rightarrow> generate_ids uuid4 s texts | Some is \<Rightarrow> (is, s)) = (is0, s1)"
    by (cases "case ids of None \<Rightarrow> generate_ids uuid4 s texts | Some is \<Rightarrow> (is, s)") 
  have c1: "collection s1 = collection s" and t1: "calls s1 = calls s"
    using g generate_ids_collection[of uuid4 s texts] generate_ids_calls[of uuid4 s texts]
    by (auto split: option.splits)
  have l1: "ids = None \<Longrightarrow> length is0 = length texts"
    using g generate_ids_length[of uuid4 s texts] by auto
  have l2: "\<And>is. ids = Some is \<Longrightarrow> is0 = is" using g by auto
  define ms0 where "ms0 = (case metadatas of None \<Rightarrow> map (\<lambda>_. []) texts | Some ms \<Rightarrow> ms)"
  have bad: "length ms0 \<noteq> length is0 \<or> length texts \<noteq> length is0"
    using assms l1 l2 by (cases ids; cases metadatas) (auto simp: ms0_def)
  have "coll_add (collection s) (map enc texts) texts ms0 is0 = Inl InvalidArgument"
    using bad by (auto simp: coll_add_def)
  then show ?thesis
    using g c1 t1
    by (simp add: add_documents_batch_def generate_embeddings_result collection_add_def Let_def ms0_def)
qed


theorem batch_length_mismatch_witness:
  "\<exists>s' ids'. add_documents_batch demo_enc demo_uuid4 one_db [''a dog''] (Some []) None
                = (Inl InvalidArgument, s')
      \<and> collection s' = collection one_db
      \<and> calls s' = calls one_db @ map (\<lambda>t. Encode [t]) [''a dog''] @ [CollAdd ids']"
proof -
  have "(\<exists>ms. Some ([] :: metadata list) = Some ms \<and> length ms \<noteq> length [''a dog''])
        \<or> (\<exists>is. (None :: string list option) = Some is \<and> length is \<noteq> length [''a dog''])"
    by simp
  from batch_length_mismatch [OF this] show ?thesis .
qed

text \<open>
  The claim as stated fails: with two texts and one id the call fails with
  \<open>InvalidArgument\<close>, but by then the encoder has been called on both texts.
\<close>

theorem batch_embeds_before_failing_counterexample:
  "add_documents_batch demo_enc demo_uuid4 empty_db [''a'', ''b''] None (Some [''x''])
     = (Inl InvalidArgument,
        empty_db\<lparr>calls := [Encode [''a''], Encode [''b''], CollAdd [''x'']]\<rparr>)"
  by (simp add: add_documents_batch_def generate_embeddings_result collection_add_def
      coll_add_def empty_db_def Let_def)

subsection \<open>Chunked ingestion\<close>

lemma chunks_Nil: "chunks c [] = []"
  by (simp add: chunks.simps)

lemma chunks_step: "0 < c \<Longrightarrow> xs \<noteq> [] \<Longrightarrow> chunks c xs = take c xs # chunks c (drop c xs)"
  by (subst chunks.simps) simp

lemma concat_chunks: "0 < c \<Longrightarrow> concat (chunks c xs) = xs"
proof (induction "length xs" arbitrary: xs rule: less_induct)
  case less
  show ?case
  proof (cases "xs = []")
    case True
    then show ?thesis by (simp add: chunks_Nil)
  next
    case False
    with less.prems have "length (drop c xs) < length xs" by simp
    from less.hyps [OF this less.prems] False less.prems show ?thesis
      by (simp add: chunks_step)
  qed
qed

lemma ceil_div_step:
  assumes "0 < c" and "0 < n"
  shows "(n + c - 1) div c = Suc ((n - c + c - 1) div c)"
proof -
  have "n + c - 1 = (n - 1) + c" using assms by simp
  then have "(n + c - 1) div c = ((n - 1) + c) div c" by (simp only:)
  also have "\<dots> = Suc ((n - 1) div c)" using assms(1) by simp
  finally have a: "(n + c - 1) div c = Suc ((n - 1) div c)" .
  show ?thesis
  proof (cases "c \<le> n")
    case True
    then show ?thesis using a by simp
  next
    case False
    then have "(n - c + c - 1) div c = 0" "(n - 1) div c = 0"
      using assms by simp_all
    then show ?thesis using a by simp
  qed
qed

lemma length_chunks: "0 < c \<Longrightarrow> length (chunks c xs) = (length xs + c - 1) div c"
proof (induction "length xs" arbitrary: xs rule: less_induct)
  case less
  show ?case
  proof (cases "xs = []")
    case True
    with less.prems show ?thesis by (simp add: chunks_Nil)
  next
    case False
    with less.prems have "length (drop c xs) < length xs" by simp
    from less.hyps [OF this less.prems]
    have "length (chunks c (drop c xs)) = (length xs - c + c - 1) div c" by simp
    moreover have "0 < length xs" using False by simp
    ultimately show ?thesis
      using False less.prems ceil_div_step [of c "length xs"] by (simp add: chunks_step)
  qed
qed

lemma chunk_sizes:
  "0 < c \<Longrightarrow> ch \<in> set (chunks c xs) \<Longrightarrow> ch \<noteq> [] \<and> length ch \<le> c"
proof (induction "length xs" arbitrary: xs rule: less_induct)
  case less
  show ?case
  proof (cases "xs = []")
    case True
    with less.prems show ?thesis by (simp add: chunks_Nil)
  next
    case False
    with less.prems have "length (drop c xs) < length xs" by simp
    from less.hyps [OF this less.prems(1)] less.prems False show ?thesis
      by (auto simp: chunks_step)
  qed
qed

lemma full_chunks:
  "0 < c \<Longrightarrow> ch \<in> set (butlast (chunks c xs)) \<Longrightarrow> length ch = c"
proof (induction "length xs" arbitrary: xs rule: less_induct)
  case less
  show ?case
  proof (cases "xs = []")
    case True
    with less.prems show ?thesis by (simp add: chunks_Nil)
  next
    case False
    with less.prems have d: "length (drop c xs) < length xs" by simp
    show ?thesis
    proof (cases "drop c xs = []")
      case True
      with less.prems False show ?thesis by (simp add: chunks_step chunks_Nil)
    next
      case ne: False
      then have "chunks c (drop c xs) \<noteq> []"
        using less.prems(1) by (simp add: chunks_step)
      with less.hyps [OF d less.prems(1)] less.prems False ne show ?thesis
        by (auto simp: chunks_step)
    qed
  qed
qed


lemma upsert_all_keys: "fst ` set (upsert_all rows al) = fst ` set al \<union> fst ` set rows"
  unfolding upsert_all_def
proof (induction rows arbitrary: al)
  case Nil
  then show ?case by simp
next
  case (Cons r rows)
  have "fst ` set (AList.update (fst r) (snd r) al) = insert (fst r) (fst ` set al)"
    by (simp add: dom_update)
  with Cons.IH [of "AList.update (fst r) (snd r) al"] show ?case
    by (simp add: case_prod_beta)
qed

lemma upsert_all_length:
  "distinct (map fst rows) \<Longrightarrow> fst ` set rows \<inter> fst ` set al = {}
     \<Longrightarrow> length (upsert_all rows al) = length al + length rows"
  unfolding upsert_all_def
proof (induction rows arbitrary: al)
  case Nil
  then show ?case by simp
next
  case (Cons r rows)
  obtain k v where r: "r = (k, v)" by (cases r)
  from Cons.prems r have k: "k \<notin> fst ` set al" "k \<notin> fst ` set rows" by auto
  from Cons.prems r k have "fst ` set rows \<inter> fst ` set (AList.update k v al) = {}"
    by (auto simp: dom_update)
  moreover from Cons.prems have "distinct (map fst rows)" by simp
  ultimately have "length (fold (\<lambda>(i, e). AList.update i e) rows (AList.update k v al))
      = length (AList.update k v al) + length rows"
    by (rule Cons.IH [rotated])
  with k r show ?case by (simp add: length_alist_update)
qed

lemma map_fst_rows_of:
  "length ts = length is \<Longrightarrow> length ms = length is \<Longrightarrow> map fst (rows_of enc ts ms is) = is"
  by (simp add: rows_of_def)

lemma keys_rows_of:
  "length ts = length is \<Longrightarrow> length ms = length is \<Longrightarrow> fst ` set (rows_of enc ts ms is) = set is"
  using map_fst_rows_of [of ts "is" ms enc] by (metis set_map)

lemma commit_chunk:
  assumes "length ts = length is" and "length ms = length is" and "is \<noteq> []"
    and "list_all (\<lambda>t. length (enc t) = D) ts"
    and "dimension (collection s) = None \<or> dimension (collection s) = Some D"
  shows "collection_add (snd (generate_embeddings_batch enc s ts))
           (fst (generate_embeddings_batch enc s ts)) ts ms is =
         (Inr (), s\<lparr>calls := calls s @ [Encode ts, CollAdd is],
                    collection := \<lparr>docs = upsert_all (rows_of enc ts ms is) (docs (collection s)),
                                   dimension = Some D\<rparr>\<rparr>)"
proof -
  from assms(1,3) obtain t ts' where ts: "ts = t # ts'" by (cases ts) auto
  with assms(4) have "length (enc t) = D" by simp
  with assms ts have "lock_dimension (dimension (collection s)) (map enc ts) = Some D"
    by (auto simp: lock_dimension_def)
  moreover from assms(4) have "dimension_ok (Some D) (map enc ts)"
    by (simp add: dimension_ok_def list_all_iff)
  ultimately show ?thesis
    using assms(1,2)
    by (simp add: collection_add_def generate_embeddings_batch_def coll_add_def rows_of_def Let_def)
qed

lemma batch_loop_run:
  assumes c: "0 < c" and lm: "length metadatas = length texts" and li: "length ids = length texts"
    and enc: "list_all (\<lambda>t. length (enc t) = D) texts"
  shows "dimension (collection s) = None \<or> dimension (collection s) = Some D \<Longrightarrow>
    \<exists>s'. batch_loop enc c texts metadatas ids i s added = (Inr (added @ drop i ids), s')
       \<and> calls s' = calls s @ concat (map (\<lambda>(t, d). [Encode t, CollAdd d])
                                      (zip (chunks c (drop i texts)) (chunks c (drop i ids))))
       \<and> fst ` set (docs (collection s')) = fst ` set (docs (collection s)) \<union> set (drop i ids)
       \<and> (distinct (drop i ids) \<and> set (drop i ids) \<inter> fst ` set (docs (collection s)) = {}
            \<longrightarrow> coll_count (collection s') = coll_count (collection s) + (length texts - i))"
proof (induction "length texts - i" arbitrary: i s added rule: less_induct)
  case less
  show ?case
  proof (cases "i < length texts")
    case False
    then have "drop i texts = []" "drop i ids = []" using li by simp_all
    with False show ?thesis
      by (subst batch_loop.simps) (simp add: chunks_Nil)
  next
    case True
    define bt where "bt = take c (drop i texts)"
    define bm where "bm = take c (drop i metadatas)"
    define bi where "bi = take c (drop i ids)"
    define s1 where "s1 = s\<lparr>calls := calls s @ [Encode bt, CollAdd bi],
        collection := \<lparr>docs = upsert_all (rows_of enc bt bm bi) (docs (collection s)),
                       dimension = Some D\<rparr>\<rparr>"
    have lens: "length bt = length bi" "length bm = length bi"
      using li lm by (simp_all add: bt_def bm_def bi_def)
    have ne: "bi \<noteq> []" "drop i ids \<noteq> []" "drop i texts \<noteq> []"
      using True c li by (simp_all add: bi_def)
    have encb: "list_all (\<lambda>t. length (enc t) = D) bt"
      using enc by (auto simp: bt_def list_all_iff dest: in_set_takeD in_set_dropD)
    have step: "collection_add (snd (generate_embeddings_batch enc s bt))
           (fst (generate_embeddings_batch enc s bt)) bt bm bi = (Inr (), s1)"
      unfolding s1_def by (rule commit_chunk [OF lens ne(1) encb less.prems])
    have unfold: "batch_loop enc c texts metadatas ids i s added =
        batch_loop enc c texts metadatas ids (i + c) s1 (added @ bi)"
      using True c step
      by (subst batch_loop.simps) (simp add: Let_def bt_def bm_def bi_def)
    have m: "length texts - (i + c) < length texts - i" using True c by simp
    have d1: "dimension (collection s1) = None \<or> dimension (collection s1) = Some D"
      by (simp add: s1_def)
    from less.hyps [OF m d1, of "added @ bi"]
    obtain s' where
      r: "batch_loop enc c texts metadatas ids (i + c) s1 (added @ bi)
            = (Inr ((added @ bi) @ drop (i + c) ids), s')"
      and tr: "calls s' = calls s1 @ concat (map (\<lambda>(t, d). [Encode t, CollAdd d])
                 (zip (chunks c (drop (i + c) texts)) (chunks c (drop (i + c) ids))))"
      and ks: "fst ` set (docs (collection s')) =
                 fst ` set (docs (collection s1)) \<union> set (drop (i + c) ids)"
      and cn: "distinct (drop (i + c) ids)
                 \<and> set (drop (i + c) ids) \<inter> fst ` set (docs (collection s1)) = {}
               \<longrightarrow> coll_count (collection s') = coll_count (collection s1) + (length texts - (i + c))"
      by blast
    have split_ids: "drop i ids = bi @ drop (i + c) ids"
      by (simp add: bi_def add.commute [of i c] flip: drop_drop)
    have k1: "fst ` set (docs (collection s1)) = fst ` set (docs (collection s)) \<union> set bi"
      using keys_rows_of [OF lens, of enc]
      by (simp add: s1_def upsert_all_keys)
    have ch_t: "chunks c (drop i texts) = bt # chunks c (drop (i + c) texts)"
      using c ne by (simp add: chunks_step bt_def add.commute)
    have ch_i: "chunks c (drop i ids) = bi # chunks c (drop (i + c) ids)"
      using c ne by (simp add: chunks_step bi_def add.commute)
    have res: "batch_loop enc c texts metadatas ids i s added = (Inr (added @ drop i ids), s')"
      using unfold r split_ids by simp
    have trace: "calls s' = calls s @ concat (map (\<lambda>(t, d). [Encode t, CollAdd d])
                   (zip (chunks c (drop i texts)) (chunks c (drop i ids))))"
      using tr by (simp add: ch_t ch_i s1_def)
    have keys: "fst ` set (docs (collection s')) = fst ` set (docs (collection s)) \<union> set (drop i ids)"
      using ks k1 split_ids by auto
    have count: "coll_count (collection s') = coll_count (collection s) + (length texts - i)"
      if fresh: "distinct (drop i ids)" "set (drop i ids) \<inter> fst ` set (docs (collection s)) = {}"
    proof -
      from fresh(1) split_ids have "distinct (bi @ drop (i + c) ids)" by simp
      then have dbi: "distinct bi" and drest: "distinct (drop (i + c) ids)"
        and disj: "set bi \<inter> set (drop (i + c) ids) = {}"
        by simp_all
      from fresh(2) split_ids
      have "set (bi @ drop (i + c) ids) \<inter> fst ` set (docs (collection s)) = {}" by simp
      then have f1: "set bi \<inter> fst ` set (docs (collection s)) = {}"
        and f2: "set (drop (i + c) ids) \<inter> fst ` set (docs (collection s)) = {}"
        by auto
      have "length (upsert_all (rows_of enc bt bm bi) (docs (collection s)))
              = length (docs (collection s)) + length (rows_of enc bt bm bi)"
        using dbi f1 map_fst_rows_of [OF lens, of enc] keys_rows_of [OF lens, of enc]
        by (intro upsert_all_length) simp_all
      moreover have "length (rows_of enc bt bm bi) = length bi"
        using map_fst_rows_of [OF lens, of enc] by (metis length_map)
      ultimately have c1: "coll_count (collection s1) = coll_count (collection s) + length bi"
        by (simp add: coll_count_def s1_def)
      have "set (drop (i + c) ids) \<inter> fst ` set (docs (collection s1)) = {}"
        using k1 disj f2 by auto
      with cn drest have "coll_count (collection s') = coll_count (collection s1) + (length texts - (i + c))"
        by simp
      moreover have "length bi = min c (length texts - i)"
        using li by (simp add: bi_def)
      ultimately show ?thesis using c1 True by (simp add: min_def)
    qed
    from res trace keys count show ?thesis by blast
  qed
qed


text \<open>
  C6, as the code has it. For \<open>n\<close> texts, metadata dictionaries and ids and a positive
  \<^verbatim>\<open>batch_size\<close> \<open>c\<close>, with embeddings of the collection's dimension,
  \<^verbatim>\<open>AdvancedVectorDB.add_documents_batch\<close> succeeds and returns the ids in input order.
  Its collaborator calls are, chunk after chunk in order, one batch encoding and one
  insert; the chunks are the \<open>\<lceil>n / c\<rceil>\<close> consecutive pieces of the input, none empty, none
  longer than \<open>c\<close>, all but the last of length \<open>c\<close>. The number of stored documents grows by
  exactly \<open>n\<close> when the ids are pairwise distinct and none of them is stored already.
\<close>

theorem chunked_ingest:
  assumes "0 < batch_size" and "length metadatas = length texts" and "length ids = length texts"
    and "list_all (\<lambda>t. length (enc t) = D) texts"
    and "dimension (collection s) = None \<or> dimension (collection s) = Some D"
  shows "\<exists>s'. adv_add_documents_batch enc s texts metadatas ids batch_size = (Inr ids, s')
      \<and> calls s' = calls s @ concat (map (\<lambda>(t, d). [Encode t, CollAdd d])
                         (zip (chunks (nat batch_size) texts) (chunks (nat batch_size) ids)))
      \<and> length (chunks (nat batch_size) texts)
           = (length texts + nat batch_size - 1) div nat batch_size
      \<and> concat (chunks (nat batch_size) texts) = texts
      \<and> (\<forall>ch \<in> set (chunks (nat batch_size) texts). ch \<noteq> [] \<and> length ch \<le> nat batch_size)
      \<and> (\<forall>ch \<in> set (butlast (chunks (nat batch_size) texts)). length ch = nat batch_size)
      \<and> (distinct ids \<and> set ids \<inter> fst ` set (docs (collection s)) = {}
            \<longrightarrow> coll_count (collection s') = coll_count (collection s) + length texts)"
proof -
  have c: "0 < nat batch_size" using assms(1) by simp
  from batch_loop_run [OF c assms(2,3,4,5), of 0 "[]"]
  obtain s' where
    "batch_loop enc (nat batch_size) texts metadatas ids 0 s [] = (Inr ids, s')"
    "calls s' = calls s @ concat (map (\<lambda>(t, d). [Encode t, CollAdd d])
                         (zip (chunks (nat batch_size) texts) (chunks (nat batch_size) ids)))"
    "distinct ids \<and> set ids \<inter> fst ` set (docs (collection s)) = {}
            \<longrightarrow> coll_count (collection s') = coll_count (collection s) + length texts"
    by auto
  moreover have "adv_add_documents_batch enc s texts metadatas ids batch_size
      = batch_loop enc (nat batch_size) texts metadatas ids 0 s []"
    using assms(1) by (simp add: adv_add_documents_batch_def)
  ultimately show ?thesis
    using length_chunks [OF c, of texts] concat_chunks [OF c, of texts]
      chunk_sizes [OF c, of _ texts] full_chunks [OF c, of _ texts]
    by auto
qed

lemma chunks_abc: "chunks 2 [''a'', ''b'', ''c''] = [[''a'', ''b''], [''c'']]"
  by (simp add: chunks.simps)

lemma chunks_xyz: "chunks 2 [''x'', ''y'', ''z''] = [[''x'', ''y''], [''z'']]"
  by (simp add: chunks.simps)

theorem chunked_ingest_witness:
  "\<exists>s'. adv_add_documents_batch demo_enc empty_db [''a'', ''b'', ''c''] [[], [], []]
            [''x'', ''y'', ''z''] 2 = (Inr [''x'', ''y'', ''z''], s')
      \<and> calls s' = [Encode [''a'', ''b''], CollAdd [''x'', ''y''], Encode [''c''], CollAdd [''z'']]
      \<and> coll_count (collection s') = 3"
proof -
  have e: "list_all (\<lambda>t. length (demo_enc t) = 2) [''a'', ''b'', ''c'']"
    by (simp add: demo_enc_def)
  have d: "dimension (collection empty_db) = None \<or> dimension (collection empty_db) = Some 2"
    by (simp add: empty_db_def)
  have f: "distinct [''x'', ''y'', ''z''] \<and> set [''x'', ''y'', ''z''] \<inter> fst ` set (docs (collection empty_db)) = {}"
    by (simp add: empty_db_def)
  from chunked_ingest [of 2 "[[], [], []]" "[''a'', ''b'', ''c'']" "[''x'', ''y'', ''z'']" demo_enc 2 empty_db, OF _ _ _ e d]
    f show ?thesis
    by (simp add: chunks_abc chunks_xyz empty_db_def coll_count_def numeral_3_eq_3)
qed

text \<open>
  Without that condition the count need not grow by \<open>n\<close>: ingesting one document under an
  id that is already stored succeeds, overwrites, and leaves the count at 1.
\<close>

theorem ingest_stored_id_counterexample:
  "adv_add_documents_batch demo_enc one_db [''a dog''] [[]] [''doc1''] 1
     = (Inr [''doc1''],
        \<lparr>collection = \<lparr>docs = [(''doc1'', \<lparr>emb = [5, 1], doc = ''a dog'', meta = []\<rparr>)],
                        dimension = Some 2\<rparr>,
          collection_name = ''documents'',
          calls = [Encode [''a cat''], CollAdd [''doc1''], Encode [''a dog''], CollAdd [''doc1'']],
          uuids_drawn = 0\<rparr>)
   \<and> coll_count (collection one_db) = 1
   \<and> coll_count (collection (snd (adv_add_documents_batch demo_enc one_db [''a dog''] [[]] [''doc1''] 1))) = 1"
  by (simp add: adv_add_documents_batch_def batch_loop.simps generate_embeddings_batch_def
      collection_add_def coll_add_def lock_dimension_def dimension_ok_def upsert_all_def
      one_db_def demo_enc_def coll_count_def Let_def)


subsection \<open>Hybrid search\<close>

lemma zip3_map: "zip (map f xs) (zip (map g xs) (map h xs)) = map (\<lambda>x. (f x, g x, h x)) xs"
  by (induction xs) simp_all

lemma sort_key_agree:
  "(\<And>x. x \<in> set xs \<Longrightarrow> f x = g x) \<Longrightarrow> sort_key f xs = sort_key g xs"
proof (induction xs)
  case Nil
  then show ?case by simp
next
  case (Cons x xs)
  have ins: "insort_key f x ys = insort_key g x ys" if "set ys \<subseteq> set xs" for ys
    using that
  proof (induction ys)
    case Nil
    then show ?case by simp
  next
    case (Cons y ys)
    then show ?case using Cons.prems \<open>\<And>x'. x' \<in> set (x # xs) \<Longrightarrow> f x' = g x'\<close>
      by (simp add: subset_iff)
  qed
  from Cons have "sort_key f xs = sort_key g xs" by simp
  with ins [of "sort_key g xs"] show ?case by simp
qed

lemma candidates_of_query:
  "zip (res_ids (coll_query metric c q n wh))
     (zip (res_documents (coll_query metric c q n wh)) (res_distances (coll_query metric c q n wh)))
   = map (\<lambda>(i, e). (i, doc e, metric q (emb e))) (take n (ranked metric c q wh))"
  by (simp add: coll_query_def ranked_def Let_def zip3_map case_prod_beta)

lemma score_candidate_fields:
  "score_candidate (set (py_split (py_lower query))) kw (i, d, x)
     = \<lparr>hit_id = i, hit_document = d, semantic_score = x,
        keyword_score = overlap_fraction query d,
        combined_score = (1 - kw) * (1 - x) + kw * overlap_fraction query d\<rparr>"
  by (simp add: score_candidate_def overlap_fraction_def Let_def)

lemma sorted_ranked: "sorted (map (\<lambda>(i, e). metric q (emb e)) (ranked metric c q wh))"
  by (simp add: ranked_def)


lemma search_similar_columns:
  "fst (adv_search_similar enc metric s query n wh) = coll_query metric (collection s) (enc query) n wh"
  by (simp add: adv_search_similar_def Let_def)

lemma scored_candidates:
  "map (score_candidate (set (py_split (py_lower query))) kw)
     (zip (res_ids (coll_query metric (collection s) (enc query) n None))
        (zip (res_documents (coll_query metric (collection s) (enc query) n None))
           (res_distances (coll_query metric (collection s) (enc query) n None))))
   = scored enc metric s query n kw"
  by (simp add: candidates_of_query scored_def case_prod_beta score_candidate_fields)

lemma hybrid_search_result:
  "fst (hybrid_search enc metric s query k kw) =
     \<lparr>results = take k (sort_key (\<lambda>h. - combined_score h) (scored enc metric s query (k * 2) kw)),
      total_found = length (scored enc metric s query (k * 2) kw)\<rparr>"
  unfolding hybrid_search_def Let_def fst_conv search_similar_columns scored_candidates
  by simp

lemma hybrid_search_state:
  "snd (hybrid_search enc metric s query k kw) = snd (adv_search_similar enc metric s query (k * 2) None)"
  by (simp add: hybrid_search_def Let_def)

text \<open>
  C4, as the code has it. For every query, \<open>k\<close> and weight, \<^verbatim>\<open>hybrid_search\<close> takes its
  candidates from \<^verbatim>\<open>search_similar\<close> with \<open>2k\<close> results (so at most \<open>2k\<close> of them) and
  reports their number as \<^verbatim>\<open>total_found\<close>. Each candidate becomes an entry whose
  \<^verbatim>\<open>keyword_score\<close> is the fraction of the query's lowercase whitespace-delimited tokens
  that occur among the document's (0 for a query without tokens), whose
  \<^verbatim>\<open>semantic_score\<close> is the distance itself, and whose \<^verbatim>\<open>combined_score\<close> is
  \<open>(1 - keyword_weight) * (1 - distance) + keyword_weight * keyword_score\<close>. The result is
  the first \<open>k\<close> entries of these, in descending order of \<^verbatim>\<open>combined_score\<close>.
\<close>

theorem hybrid_search_algorithm:
  "let sr = fst (adv_search_similar enc metric s query (k * 2) None);
       cands = zip (res_ids sr) (zip (res_documents sr) (res_distances sr));
       hr = fst (hybrid_search enc metric s query k kw)
   in length cands \<le> k * 2
      \<and> total_found hr = length cands
      \<and> (\<exists>hs. mset hs =
                 mset (map (\<lambda>(i, d, x).
                        \<lparr>hit_id = i, hit_document = d, semantic_score = x,
                         keyword_score = overlap_fraction query d,
                         combined_score = (1 - kw) * (1 - x) + kw * overlap_fraction query d\<rparr>)
                      cands)
              \<and> sorted_wrt (\<lambda>a b. combined_score b \<le> combined_score a) hs
              \<and> results hr = take k hs)"
proof -
  define hits where "hits = scored enc metric s query (k * 2) kw"
  define hs where "hs = sort_key (\<lambda>h. - combined_score h) hits"
  define cands where "cands =
    zip (res_ids (coll_query metric (collection s) (enc query) (k * 2) None))
      (zip (res_documents (coll_query metric (collection s) (enc query) (k * 2) None))
         (res_distances (coll_query metric (collection s) (enc query) (k * 2) None)))"
  have cands: "cands = map (\<lambda>(i, e). (i, doc e, metric (enc query) (emb e)))
                         (take (k * 2) (ranked metric (collection s) (enc query) None))"
    by (simp add: cands_def candidates_of_query)
  have h: "hits = map (\<lambda>(i, d, x).
                        \<lparr>hit_id = i, hit_document = d, semantic_score = x,
                         keyword_score = overlap_fraction query d,
                         combined_score = (1 - kw) * (1 - x) + kw * overlap_fraction query d\<rparr>)
                      cands"
    by (simp add: hits_def scored_def cands case_prod_beta)
  have "length cands \<le> k * 2" by (simp add: cands)
  moreover have "length hits = length cands" by (simp add: h)
  moreover have "mset hs = mset hits" by (simp add: hs_def)
  moreover have "sorted (map (\<lambda>h. - combined_score h) hs)" by (simp add: hs_def)
  then have "sorted_wrt (\<lambda>a b. combined_score b \<le> combined_score a) hs"
    by (simp add: sorted_map)
  ultimately show ?thesis
    unfolding Let_def search_similar_columns hybrid_search_result
    using h by (fold cands_def hits_def hs_def) auto
qed

theorem hybrid_search_algorithm_witness:
  "let sr = fst (adv_search_similar demo_enc demo_dist pets_db ''a cat'' (1 * 2) None);
       cands = zip (res_ids sr) (zip (res_documents sr) (res_distances sr));
       hr = fst (hybrid_search demo_enc demo_dist pets_db ''a cat'' 1 (1 / 2))
   in length cands \<le> 1 * 2
      \<and> total_found hr = length cands
      \<and> (\<exists>hs. mset hs =
                 mset (map (\<lambda>(i, d, x).
                        \<lparr>hit_id = i, hit_document = d, semantic_score = x,
                         keyword_score = overlap_fraction ''a cat'' d,
                         combined_score = (1 - 1 / 2) * (1 - x) + 1 / 2 * overlap_fraction ''a cat'' d\<rparr>)
                      cands)
              \<and> sorted_wrt (\<lambda>a b. combined_score b \<le> combined_score a) hs
              \<and> results hr = take 1 hs)"
  by (rule hybrid_search_algorithm)

text \<open>
  The claim as stated fails on the stored field: for a candidate at distance 0 the entry
  has \<open>semantic_score = 0\<close>, not \<open>1 - 0\<close>, and its \<open>combined_score\<close> is 1, not
  \<open>(1 - 1/2) * semantic_score + 1/2 * keyword_score = 1/2\<close>.
\<close>

theorem semantic_score_is_distance_counterexample:
  "results (fst (hybrid_search demo_enc demo_dist one_db ''a cat'' 1 (1 / 2)))
     = [\<lparr>hit_id = ''doc1'', hit_document = ''a cat'', semantic_score = 0,
         keyword_score = 1, combined_score = 1\<rparr>]
   \<and> res_distances (fst (adv_search_similar demo_enc demo_dist one_db ''a cat'' (1 * 2) None)) = [0]
   \<and> (0 :: real) \<noteq> 1 - 0
   \<and> (1 :: real) \<noteq> (1 - 1 / 2) * 0 + 1 / 2 * 1"
  by (simp add: hybrid_search_def adv_search_similar_def coll_query_def matches_where_def
      score_candidate_def py_split_def py_lower_def py_lower_char_def py_isspace_def
      one_db_def demo_enc_def demo_dist_def Let_def)

subsection \<open>Hybrid search at the two extreme weights\<close>

lemma sorted_shift_take:
  fixes f :: "'a \<Rightarrow> real"
  assumes "sorted (map f xs)"
  shows "sorted (map (\<lambda>x. - (1 - f x)) (take n xs))"
proof -
  from assms have "sorted_wrt (\<lambda>x y. f x \<le> f y) (take n xs)"
    by (simp add: sorted_map)
  then have "sorted_wrt (\<lambda>x y. - (1 - f x) \<le> - (1 - f y)) (take n xs)"
    by (rule sorted_wrt_mono_rel [rotated]) simp
  then show ?thesis by (simp add: sorted_map)
qed

lemma weight_zero_order:
  "sort_key (\<lambda>h. - combined_score h) (scored enc metric s query n 0) = scored enc metric s query n 0"
proof -
  have "map (\<lambda>h. - combined_score h) (scored enc metric s query n 0)
        = map (\<lambda>p. - (1 - (case p of (i, e) \<Rightarrow> metric (enc query) (emb e))))
            (take n (ranked metric (collection s) (enc query) None))"
    by (simp add: scored_def case_prod_beta)
  also have "sorted \<dots>"
    by (rule sorted_shift_take) (rule sorted_ranked)
  finally show ?thesis by (rule sort_key_id_if_sorted)
qed

lemma take_scored: "take k (scored enc metric s query (k * 2) kw) = scored enc metric s query k kw"
  by (simp add: scored_def take_map min_def)

text \<open>
  C5. With \<^verbatim>\<open>keyword_weight = 0\<close> the ids (and distances) of the \<^verbatim>\<open>hybrid_search\<close>
  result, in order, are those of \<^verbatim>\<open>search_similar\<close> on the same query and \<open>k\<close>, which are
  ascending by distance. With \<^verbatim>\<open>keyword_weight = 1\<close> every \<^verbatim>\<open>combined_score\<close> is the
  token-overlap fraction of query and document, and the result is the first \<open>k\<close> of the
  candidates sorted, stably, by that fraction descending.
\<close>

theorem hybrid_weight_extremes:
  "map hit_id (results (fst (hybrid_search enc metric s query k 0)))
     = res_ids (fst (adv_search_similar enc metric s query k None))
   \<and> map semantic_score (results (fst (hybrid_search enc metric s query k 0)))
     = res_distances (fst (adv_search_similar enc metric s query k None))
   \<and> results (fst (hybrid_search enc metric s query k 1))
     = take k (sort_key (\<lambda>h. - overlap_fraction query (hit_document h))
                 (scored enc metric s query (k * 2) 1))
   \<and> (\<forall>h \<in> set (results (fst (hybrid_search enc metric s query k 1))).
         combined_score h = overlap_fraction query (hit_document h))"
proof -
  have one: "combined_score h = overlap_fraction query (hit_document h)"
    if "h \<in> set (scored enc metric s query n 1)" for h n
    using that by (auto simp: scored_def)
  have a: "results (fst (hybrid_search enc metric s query k 0)) = scored enc metric s query k 0"
    by (simp add: hybrid_search_result weight_zero_order take_scored)
  have b: "sort_key (\<lambda>h. - combined_score h) (scored enc metric s query (k * 2) 1)
         = sort_key (\<lambda>h. - overlap_fraction query (hit_document h)) (scored enc metric s query (k * 2) 1)"
    by (rule sort_key_agree) (simp add: one)
  have c: "set (results (fst (hybrid_search enc metric s query k 1)))
             \<subseteq> set (scored enc metric s query (k * 2) 1)"
    using set_take_subset [of k "sort_key (\<lambda>h. - combined_score h) (scored enc metric s query (k * 2) 1)"]
    by (simp add: hybrid_search_result)
  have r0: "map hit_id (scored enc metric s query k 0)
              = res_ids (fst (adv_search_similar enc metric s query k None))"
    by (simp add: search_similar_columns coll_query_def Let_def scored_def ranked_def
        case_prod_beta comp_def)
  have d0: "map semantic_score (scored enc metric s query k 0)
              = res_distances (fst (adv_search_similar enc metric s query k None))"
    by (simp add: search_similar_columns coll_query_def Let_def scored_def ranked_def
        case_prod_beta comp_def)
  have r1: "results (fst (hybrid_search enc metric s query k 1))
     = take k (sort_key (\<lambda>h. - overlap_fraction query (hit_document h))
                 (scored enc metric s query (k * 2) 1))"
    by (simp add: hybrid_search_result b)
  have e1: "\<forall>h \<in> set (results (fst (hybrid_search enc metric s query k 1))).
         combined_score h = overlap_fraction query (hit_document h)"
    using c one by blast
  from r0 d0 r1 e1 show ?thesis
    unfolding a by blast
qed


theorem hybrid_weight_extremes_witness:
  "map hit_id (results (fst (hybrid_search demo_enc demo_dist pets_db ''a big'' 1 0)))
     = res_ids (fst (adv_search_similar demo_enc demo_dist pets_db ''a big'' 1 None))
   \<and> map hit_id (results (fst (hybrid_search demo_enc demo_dist pets_db ''a big'' 1 0))) = [''doc1'']
   \<and> results (fst (hybrid_search demo_enc demo_dist pets_db ''a big'' 1 1))
     = take 1 (sort_key (\<lambda>h. - overlap_fraction ''a big'' (hit_document h))
                 (scored demo_enc demo_dist pets_db ''a big'' (1 * 2) 1))
   \<and> map hit_id (results (fst (hybrid_search demo_enc demo_dist pets_db ''a big'' 1 1))) = [''doc2'']"
proof -
  have a: "res_ids (fst (adv_search_similar demo_enc demo_dist pets_db ''a big'' 1 None)) = [''doc1'']"
    by (simp add: adv_search_similar_def coll_query_def matches_where_def
        pets_db_def demo_enc_def demo_dist_def Let_def)
  have b: "map hit_id (take 1 (sort_key (\<lambda>h. - overlap_fraction ''a big'' (hit_document h))
                 (scored demo_enc demo_dist pets_db ''a big'' (1 * 2) 1))) = [''doc2'']"
    by (simp add: scored_def ranked_def overlap_fraction_def matches_where_def
        py_split_def py_lower_def py_lower_char_def py_isspace_def
        pets_db_def demo_enc_def demo_dist_def Let_def)
  from hybrid_weight_extremes [of demo_enc demo_dist pets_db "''a big''" 1] a b
  show ?thesis by simp
qed

subsection \<open>Statistics\<close>

lemma set_map_filter_Some: "set (List.map_filter f xs) = {y. \<exists>x \<in> set xs. f x = Some y}"
  by (induction xs) (auto split: option.splits)

lemma unique_count_card:
  "unique_count str ms key = card (str ` {v. v \<noteq> PNone \<and> (\<exists>m \<in> set ms. map_of m key = Some v)})"
proof -
  have "set (filter (\<lambda>v. v \<noteq> PNone) (List.map_filter (\<lambda>m. map_of m key) ms))
        = {v. v \<noteq> PNone \<and> (\<exists>m \<in> set ms. map_of m key = Some v)}"
    by (auto simp: set_map_filter_Some)
  then show ?thesis
    by (simp add: unique_count_def Let_def)
qed

lemma all_metadatas: "map (\<lambda>(i, t, m). m) (coll_get c None) = map (\<lambda>(i, e). meta e) (docs c)"
  by (simp add: coll_get_def case_prod_beta)

text \<open>
  C9, as the code has it. \<^verbatim>\<open>get_statistics\<close> reports \<^verbatim>\<open>total_documents\<close> equal to the
  number of stored documents. For a collection with at least one document it reports
  \<^verbatim>\<open>metadata_fields\<close>, the union of the metadata keys of all documents (each once), and for
  each such key the number of distinct stringified values among exactly the documents
  that have the key; a value \<^verbatim>\<open>None\<close> is skipped. For the empty collection it reports
  neither \<^verbatim>\<open>metadata_fields\<close> nor \<^verbatim>\<open>metadata_unique_counts\<close>.
\<close>

theorem get_statistics_report:
  "let st = get_statistics str enc_dim s;
       ms = map (\<lambda>(i, e). meta e) (docs (collection s))
   in total_documents st = coll_count (collection s)
      \<and> (docs (collection s) = [] \<longrightarrow> metadata_fields st = None \<and> metadata_unique_counts st = None)
      \<and> (docs (collection s) \<noteq> [] \<longrightarrow>
           (\<exists>ks cs. metadata_fields st = Some ks \<and> metadata_unique_counts st = Some cs
              \<and> distinct ks \<and> set ks = (\<Union>m \<in> set ms. fst ` set m)
              \<and> map fst cs = ks
              \<and> (\<forall>k \<in> set ks. map_of cs k =
                    Some (card (str ` {v. v \<noteq> PNone \<and> (\<exists>m \<in> set ms. map_of m k = Some v)})))))"
proof -
  define ms where "ms = map (\<lambda>(i, e). meta e) (docs (collection s))"
  define ks where "ks = remdups (concat (map (map fst) ms))"
  define cs where "cs = map (\<lambda>key. (key, unique_count str ms key)) ks"
  have len: "length (coll_get (collection s) None) = coll_count (collection s)"
    by (simp add: coll_get_def coll_count_def)
  have empty: "ms = [] \<longleftrightarrow> docs (collection s) = []"
    by (simp add: ms_def)
  have st: "get_statistics str enc_dim s =
      (if ms \<noteq> [] then
         \<lparr>total_documents = coll_count (collection s), stat_collection_name = collection_name s,
          embedding_model = enc_dim, metadata_fields = Some ks, metadata_unique_counts = Some cs\<rparr>
       else
         \<lparr>total_documents = coll_count (collection s), stat_collection_name = collection_name s,
          embedding_model = enc_dim, metadata_fields = None, metadata_unique_counts = None\<rparr>)"
    unfolding get_statistics_def Let_def all_metadatas len
    by (simp add: ms_def ks_def cs_def)
  have k1: "distinct ks" by (simp add: ks_def)
  have k2: "set ks = (\<Union>m \<in> set ms. fst ` set m)" by (auto simp: ks_def)
  have c1: "map fst cs = ks" by (simp add: cs_def comp_def)
  have c2: "map_of cs k = Some (card (str ` {v. v \<noteq> PNone \<and> (\<exists>m \<in> set ms. map_of m k = Some v)}))"
    if "k \<in> set ks" for k
    using that by (simp add: cs_def map_of_map_restrict unique_count_card)
  show ?thesis
    unfolding Let_def st
    using k1 k2 c1 c2 empty by (fold ms_def) auto
qed

theorem get_statistics_report_witness:
  "docs (collection pets_db) \<noteq> []
   \<and> total_documents (get_statistics demo_str 2 pets_db) = 2
   \<and> (\<exists>ks cs. metadata_fields (get_statistics demo_str 2 pets_db) = Some ks
         \<and> metadata_unique_counts (get_statistics demo_str 2 pets_db) = Some cs
         \<and> set ks = {''kind'', ''legs''} \<and> map fst cs = ks)"
proof -
  have ne: "docs (collection pets_db) \<noteq> []" by (simp add: pets_db_def)
  have u: "(\<Union>m \<in> set (map (\<lambda>(i, e). meta e) (docs (collection pets_db))). fst ` set m)
             = {''kind'', ''legs''}"
    by (auto simp: pets_db_def)
  have n: "coll_count (collection pets_db) = 2" by (simp add: pets_db_def coll_count_def)
  from get_statistics_report [of demo_str 2 pets_db] ne u n show ?thesis
    unfolding Let_def by auto
qed

text \<open>
  On the empty collection the report has no \<^verbatim>\<open>metadata_fields\<close> entry at all, where the
  claim has an empty set of fields.
\<close>

theorem statistics_of_empty_counterexample:
  "get_statistics demo_str 2 empty_db =
     \<lparr>total_documents = 0, stat_collection_name = ''documents'', embedding_model = 2,
      metadata_fields = None, metadata_unique_counts = None\<rparr>"
  by (simp add: get_statistics_def coll_get_def empty_db_def)

end
